theory Spec2Isabelle
  imports Main "HOL-Library.Sublist"
begin

section \<open>Python values\<close>

text \<open>
  A Python string is a sequence of Unicode code points, so it is a list of naturals here
  (\<open>len\<close> counts code points, \<open>ord\<close> is the element itself).
\<close>

type_synonym pystr = "nat list"

text \<open>
  The values a JSON body or a caller can hand to the functions below. A float is kept as
  mantissa and binary exponent (\<open>m * 2 ^ e\<close>); only its truth value is ever used.
\<close>

datatype pyval =
    PNone
  | PBool bool
  | PInt int
  | PFloat int int
  | PStr pystr
  | PList "pyval list"
  | PDict "(pystr \<times> pyval) list"

text \<open>Python's truth value of an object, as \<open>not name\<close> tests it.\<close>

fun truthy :: "pyval \<Rightarrow> bool" where
  "truthy PNone = False"
| "truthy (PBool b) = b"
| "truthy (PInt i) = (i \<noteq> 0)"
| "truthy (PFloat m e) = (m \<noteq> 0)"
| "truthy (PStr s) = (s \<noteq> [])"
| "truthy (PList xs) = (xs \<noteq> [])"
| "truthy (PDict kvs) = (kvs \<noteq> [])"

text \<open>\<open>isinstance(v, str)\<close>.\<close>

fun isinstance_str :: "pyval \<Rightarrow> bool" where
  "isinstance_str (PStr s) = True"
| "isinstance_str v = False"

text \<open>\<open>isinstance(v, int)\<close>: in Python \<open>bool\<close> is a subclass of \<open>int\<close>.\<close>

fun isinstance_int :: "pyval \<Rightarrow> bool" where
  "isinstance_int (PInt i) = True"
| "isinstance_int (PBool b) = True"
| "isinstance_int v = False"

text \<open>The integer an \<open>int\<close> instance stands for (\<open>True\<close> is 1, \<open>False\<close> is 0).\<close>

fun int_of :: "pyval \<Rightarrow> int" where
  "int_of (PInt i) = i"
| "int_of (PBool b) = (if b then 1 else 0)"
| "int_of v = 0"

text \<open>The characters of a \<open>str\<close> instance.\<close>

fun str_of :: "pyval \<Rightarrow> pystr" where
  "str_of (PStr s) = s"
| "str_of v = []"

text \<open>
  \<open>str.isspace\<close> on one character: the code points CPython lists as whitespace
  (U+0009..U+000D, U+001C..U+0020, U+0085, U+00A0, U+1680, U+2000..U+200A, U+2028,
  U+2029, U+202F, U+205F, U+3000).
\<close>

definition py_isspace :: "nat \<Rightarrow> bool" where
  "py_isspace c =
     ((9 \<le> c \<and> c \<le> 13) \<or> (28 \<le> c \<and> c \<le> 32) \<or> c = 133 \<or> c = 160 \<or> c = 5760 \<or>
      (8192 \<le> c \<and> c \<le> 8202) \<or> c = 8232 \<or> c = 8233 \<or> c = 8239 \<or> c = 8287 \<or>
      c = 12288)"

text \<open>\<open>str.strip()\<close>: leading and trailing whitespace removed.\<close>

definition strip :: "pystr \<Rightarrow> pystr" where
  "strip s = rev (dropWhile py_isspace (rev (dropWhile py_isspace s)))"

text \<open>An ASCII literal as a Python string.\<close>

definition pystr_of :: "string \<Rightarrow> pystr" where
  "pystr_of s = map of_char s"

section \<open>Validation (routes.py)\<close>

text \<open>
  The messages \<open>validate_name\<close> returns, one constructor per message:
  "Name is required", "Name must be a string", "Name cannot be empty",
  "Name must be no longer than {max_length} characters",
  "Name contains invalid characters". The specification calls them \<open>MissingValue\<close>,
  \<open>WrongType\<close>, \<open>EmptyAfterTrim\<close>, \<open>TooLong\<close> and \<open>InvalidCharacters\<close>.
\<close>

datatype message =
    Name_is_required
  | Name_must_be_a_string
  | Name_cannot_be_empty
  | Name_must_be_no_longer_than int
  | Name_contains_invalid_characters

text \<open>
  \<open>validate_name(name, max_length)\<close> returns the pair \<open>(is_valid, error_message)\<close>.
  The control-character test runs over the stripped name.
\<close>

definition validate_name :: "pyval \<Rightarrow> int \<Rightarrow> bool \<times> message option" where
  "validate_name name max_length =
     (if \<not> truthy name then (False, Some Name_is_required)
      else if \<not> isinstance_str name then (False, Some Name_must_be_a_string)
      else
        let name' = strip (str_of name) in
        if name' = [] then (False, Some Name_cannot_be_empty)
        else if int (length name') > max_length
          then (False, Some (Name_must_be_no_longer_than max_length))
        else if list_ex (\<lambda>c. c < 32 \<and> c \<notin> set [9, 10, 13]) name'
          then (False, Some Name_contains_invalid_characters)
        else (True, None))"

section \<open>Active users (services.py)\<close>

text \<open>
  The module state of \<open>services.py\<close>. Python lists are objects that are mutated in
  place and shared by reference, so they live in a heap: the object at address \<open>a\<close> is
  \<open>heap st ! a\<close>. The global \<open>_active_users\<close> is bound to one address for the whole
  life of the process. The lock makes each call below one atomic step, so a run of
  concurrent calls is the sequence of the calls in the order the lock admits them.
\<close>

record services_state =
  heap :: "int list list"
  active_users_ref :: nat

text \<open>At import: \<open>_active_users = []\<close>.\<close>

definition initial_services :: services_state where
  "initial_services = \<lparr>heap = [[]], active_users_ref = 0\<rparr>"

text \<open>The global refers to an object of the heap.\<close>

definition valid_state :: "services_state \<Rightarrow> bool" where
  "valid_state st = (active_users_ref st < length (heap st))"

definition deref :: "services_state \<Rightarrow> nat \<Rightarrow> int list" where
  "deref st a = heap st ! a"

text \<open>The contents of \<open>_active_users\<close>.\<close>

definition active_ids :: "services_state \<Rightarrow> int list" where
  "active_ids st = deref st (active_users_ref st)"

text \<open>\<open>list.append(x)\<close> on the object at \<open>a\<close>.\<close>

definition list_append :: "nat \<Rightarrow> int \<Rightarrow> services_state \<Rightarrow> services_state" where
  "list_append a x st = st\<lparr>heap := (heap st)[a := deref st a @ [x]]\<rparr>"

text \<open>\<open>list.pop(0)\<close> on the object at \<open>a\<close>; it is only called on a non-empty list.\<close>

definition list_pop0 :: "nat \<Rightarrow> services_state \<Rightarrow> services_state" where
  "list_pop0 a st = st\<lparr>heap := (heap st)[a := tl (deref st a)]\<rparr>"

text \<open>\<open>list.copy()\<close>: a new object with the same elements; its address is returned.\<close>

definition list_copy :: "nat \<Rightarrow> services_state \<Rightarrow> nat \<times> services_state" where
  "list_copy a st = (length (heap st), st\<lparr>heap := heap st @ [deref st a]\<rparr>)"

text \<open>
  Any in-place change a caller makes to a list it holds (\<open>xs[:] = ys\<close>; \<open>append\<close>,
  \<open>pop\<close>, \<open>clear\<close> and \<open>sort\<close> are instances): the object at \<open>a\<close> gets new contents.
\<close>

definition list_assign :: "nat \<Rightarrow> int list \<Rightarrow> services_state \<Rightarrow> services_state" where
  "list_assign a ys st = st\<lparr>heap := (heap st)[a := ys]\<rparr>"

definition set_user_active :: "int \<Rightarrow> services_state \<Rightarrow> services_state" where
  "set_user_active user_id st =
     (let st1 = (if user_id \<notin> set (active_ids st)
                 then list_append (active_users_ref st) user_id st else st);
          st2 = (if length (active_ids st1) > 5
                 then list_pop0 (active_users_ref st1) st1 else st1)
      in st2)"

definition get_active_users :: "services_state \<Rightarrow> nat \<times> services_state" where
  "get_active_users st = list_copy (active_users_ref st) st"

text \<open>A run of \<open>set_user_active\<close> calls, in the order the lock serialises them.\<close>

definition mark_all :: "int list \<Rightarrow> services_state \<Rightarrow> services_state" where
  "mark_all ids st = foldl (\<lambda>s user_id. set_user_active user_id s) st ids"

section \<open>The store: SQLite behind Python's sqlite3 module\<close>

text \<open>
  The database engine is a library, not code of the repository. This section fixes the
  behaviour of the library calls that the repository makes:
  \<^item> a database file either cannot be opened (\<open>sqlite3.connect\<close> raises
    \<open>OperationalError\<close>) or holds a database; a database has the \<open>users\<close> table or
    not; the table is its rows (\<open>id\<close>, \<open>name\<close>; \<open>password_hash\<close> and \<open>created_at\<close>
    are never read or written by an operation and are left out) and the
    \<open>AUTOINCREMENT\<close> counter;
  \<^item> a connection sees the file's contents and its own uncommitted changes. The
    module opens a transaction by itself before an \<open>INSERT\<close> (as before \<open>UPDATE\<close>,
    \<open>DELETE\<close> and \<open>REPLACE\<close>) and before no other statement, so a \<open>CREATE TABLE\<close>
    that runs outside a transaction is committed by SQLite at once;
  \<^item> a statement on a missing table raises \<open>OperationalError\<close>; an integer parameter
    outside the signed 64-bit range raises \<open>OverflowError\<close> when it is bound; a string
    parameter that has no UTF-8 encoding (a surrogate code point) raises
    \<open>UnicodeEncodeError\<close>; an \<open>AUTOINCREMENT\<close> insert past the largest row id raises
    \<open>OperationalError\<close> (database full);
  \<^item> closing a connection discards what it has not committed.
  Other failures of the engine (a full disk, a locked or corrupt file) are outside the
  model. Every call is recorded in a trace, with the log records.
\<close>

datatype exn =
    ValueError string
  | OperationalError
  | IntegrityError
  | OverflowError
  | UnicodeEncodeError
  | RuntimeError
  | KeyboardInterrupt

text \<open>\<open>isinstance(e, sqlite3.Error)\<close>.\<close>

fun is_sqlite_error :: "exn \<Rightarrow> bool" where
  "is_sqlite_error OperationalError = True"
| "is_sqlite_error IntegrityError = True"
| "is_sqlite_error e = False"

text \<open>\<open>isinstance(e, Exception)\<close>: \<open>KeyboardInterrupt\<close> is a \<open>BaseException\<close> only.\<close>

fun is_exception :: "exn \<Rightarrow> bool" where
  "is_exception KeyboardInterrupt = False"
| "is_exception e = True"

type_synonym user_row = "int \<times> pystr"

record users_table =
  rows :: "user_row list"
  seq :: nat

type_synonym db = "users_table option"

datatype dbfile = Unopenable | DbFile db

datatype sql =
    Create_users_table
  | Insert_user pystr
  | Select_user_by_id int
  | Select_1

datatype level = INFO | WARNING | ERROR

text \<open>The log records of the repository, one constructor per logging call.\<close>

datatype logrec =
    Database_error exn
  | Unexpected_database_error exn
  | Database_initialized string
  | Failed_to_initialize_database exn
  | User_created int pystr
  | Failed_to_create_user_integrity exn
  | Failed_to_create_user exn
  | Failed_to_get_user int exn
  | Startup_failed_to_initialize_database exn

datatype event =
    Connect string
  | Execute sql
  | Commit
  | Rollback
  | Close
  | Log level logrec

record world =
  files :: "string \<Rightarrow> dbfile"
  trace :: "event list"

record conn =
  conn_path :: string
  view :: db
  in_transaction :: bool

definition emit :: "event \<Rightarrow> world \<Rightarrow> world" where
  "emit e w = w\<lparr>trace := trace w @ [e]\<rparr>"

definition log :: "level \<Rightarrow> logrec \<Rightarrow> world \<Rightarrow> world" where
  "log l r w = emit (Log l r) w"

text \<open>What the file holds (committed state).\<close>

definition stored :: "world \<Rightarrow> string \<Rightarrow> db" where
  "stored w p = (case files w p of Unopenable \<Rightarrow> None | DbFile d \<Rightarrow> d)"

definition sqlite3_connect :: "string \<Rightarrow> world \<Rightarrow> (exn + conn) \<times> world" where
  "sqlite3_connect p w =
     (case files w p of
        Unopenable \<Rightarrow> (Inl OperationalError, emit (Connect p) w)
      | DbFile d \<Rightarrow>
          (Inr \<lparr>conn_path = p, view = d, in_transaction = False\<rparr>, emit (Connect p) w))"

definition conn_commit :: "conn \<Rightarrow> world \<Rightarrow> conn \<times> world" where
  "conn_commit c w =
     (let w1 = emit Commit w in
      if in_transaction c
      then (c\<lparr>in_transaction := False\<rparr>,
            w1\<lparr>files := (files w1)(conn_path c := DbFile (view c))\<rparr>)
      else (c, w1))"

definition conn_rollback :: "conn \<Rightarrow> world \<Rightarrow> conn \<times> world" where
  "conn_rollback c w =
     (let w1 = emit Rollback w in
      if in_transaction c
      then (c\<lparr>view := stored w1 (conn_path c), in_transaction := False\<rparr>, w1)
      else (c, w1))"

definition conn_close :: "conn \<Rightarrow> world \<Rightarrow> world" where
  "conn_close c w = emit Close w"

definition max_rowid :: int where
  "max_rowid = 9223372036854775807"

definition min_rowid :: int where
  "min_rowid = - 9223372036854775808"

text \<open>A string SQLite can take as a parameter: it has a UTF-8 encoding.\<close>

definition encodable :: "pystr \<Rightarrow> bool" where
  "encodable s = list_all (\<lambda>c. c < 55296 \<or> (57343 < c \<and> c < 1114112)) s"

text \<open>The largest id among the rows (0 for none: the counter is never below it).\<close>

fun largest_id :: "user_row list \<Rightarrow> int" where
  "largest_id [] = 0"
| "largest_id (r # rs) = max (fst r) (largest_id rs)"

text \<open>
  \<open>AUTOINCREMENT\<close>: one more than the largest id the table has ever held; no id is
  left once that is the largest row id.
\<close>

definition new_rowid :: "users_table \<Rightarrow> int option" where
  "new_rowid t =
     (let m = max (int (seq t)) (largest_id (rows t)) in
      if max_rowid \<le> m then None else Some (m + 1))"

text \<open>\<open>conn.execute("INSERT INTO users (name) VALUES (?)", (name,))\<close>; the result is
  \<open>cursor.lastrowid\<close>.\<close>

definition execute_insert :: "pystr \<Rightarrow> conn \<Rightarrow> world \<Rightarrow> (exn + int) \<times> conn \<times> world" where
  "execute_insert name c w =
     (let w1 = emit (Execute (Insert_user name)) w in
      case view c of
        None \<Rightarrow> (Inl OperationalError, c, w1)
      | Some t \<Rightarrow>
          let c1 = c\<lparr>in_transaction := True\<rparr> in
          if \<not> encodable name then (Inl UnicodeEncodeError, c1, w1)
          else
            (case new_rowid t of
               None \<Rightarrow> (Inl OperationalError, c1, w1)
             | Some i \<Rightarrow>
                 (Inr i,
                  c1\<lparr>view := Some \<lparr>rows = rows t @ [(i, name)], seq = nat i\<rparr>\<rparr>,
                  w1)))"

text \<open>\<open>conn.execute("SELECT id, name FROM users WHERE id = ?", (user_id,)).fetchone()\<close>.\<close>

definition execute_select_by_id ::
  "int \<Rightarrow> conn \<Rightarrow> world \<Rightarrow> (exn + user_row option) \<times> conn \<times> world" where
  "execute_select_by_id i c w =
     (let w1 = emit (Execute (Select_user_by_id i)) w in
      case view c of
        None \<Rightarrow> (Inl OperationalError, c, w1)
      | Some t \<Rightarrow>
          if i < min_rowid \<or> max_rowid < i then (Inl OverflowError, c, w1)
          else (Inr (find (\<lambda>r. fst r = i) (rows t)), c, w1))"

text \<open>\<open>conn.execute("CREATE TABLE IF NOT EXISTS users (...)")\<close>.\<close>

definition execute_create_users :: "conn \<Rightarrow> world \<Rightarrow> (exn + unit) \<times> conn \<times> world" where
  "execute_create_users c w =
     (let w1 = emit (Execute Create_users_table) w in
      case view c of
        Some t \<Rightarrow> (Inr (), c, w1)
      | None \<Rightarrow>
          let c1 = c\<lparr>view := Some \<lparr>rows = [], seq = 0\<rparr>\<rparr> in
          if in_transaction c then (Inr (), c1, w1)
          else (Inr (), c1, w1\<lparr>files := (files w1)(conn_path c := DbFile (view c1))\<rparr>))"

text \<open>\<open>conn.execute("SELECT 1")\<close>.\<close>

definition execute_select_1 :: "conn \<Rightarrow> world \<Rightarrow> (exn + unit) \<times> conn \<times> world" where
  "execute_select_1 c w = (Inr (), c, emit (Execute Select_1) w)"

section \<open>Connection management (database.py)\<close>

text \<open>
  The \<open>except\<close> and \<open>finally\<close> clauses of \<open>get_db_connection\<close>, for an error raised
  while the connection \<open>c\<close> is open: an \<open>sqlite3.Error\<close> and any other \<open>Exception\<close> are
  rolled back and logged, then re-raised; the connection is closed in every case.
\<close>

definition on_error :: "exn \<Rightarrow> conn \<Rightarrow> world \<Rightarrow> world" where
  "on_error e c w =
     (if is_sqlite_error e then
        (let (c1, w1) = conn_rollback c w; w2 = log ERROR (Database_error e) w1
         in conn_close c1 w2)
      else if is_exception e then
        (let (c1, w1) = conn_rollback c w; w2 = log ERROR (Unexpected_database_error e) w1
         in conn_close c1 w2)
      else conn_close c w)"

text \<open>
  \<open>with get_db_connection(database_path) as conn: body\<close>. The block is a function of
  the connection; it returns normally (also by \<open>return\<close> inside the block) or raises,
  and hands back the connection and the world as they then are. When \<open>connect\<close> itself
  fails there is no connection to roll back or close.
\<close>

definition get_db_connection ::
  "string \<Rightarrow> (conn \<Rightarrow> world \<Rightarrow> (exn + 'a) \<times> conn \<times> world) \<Rightarrow> world \<Rightarrow> (exn + 'a) \<times> world" where
  "get_db_connection database_path body w =
     (case sqlite3_connect database_path w of
        (Inl e, w1) \<Rightarrow>
          (Inl e,
           if is_sqlite_error e then log ERROR (Database_error e) w1
           else if is_exception e then log ERROR (Unexpected_database_error e) w1
           else w1)
      | (Inr c0, w1) \<Rightarrow>
          (case body c0 w1 of
             (Inr v, c1, w2) \<Rightarrow>
               (let (c2, w3) = conn_commit c1 w2 in (Inr v, conn_close c2 w3))
           | (Inl e, c1, w2) \<Rightarrow> (Inl e, on_error e c1 w2)))"

definition init_db :: "string \<Rightarrow> world \<Rightarrow> (exn + unit) \<times> world" where
  "init_db database_path w =
     (case get_db_connection database_path
             (\<lambda>c w'. case execute_create_users c w' of
                        (Inl e, c1, w1) \<Rightarrow> (Inl e, c1, w1)
                      | (Inr u, c1, w1) \<Rightarrow>
                          (Inr (), c1, log INFO (Database_initialized database_path) w1)) w of
        (Inl e, w1) \<Rightarrow>
          (Inl e,
           if is_sqlite_error e then log ERROR (Failed_to_initialize_database e) w1 else w1)
      | (Inr u, w1) \<Rightarrow> (Inr (), w1))"

section \<open>User operations (services.py)\<close>

text \<open>The dictionary \<open>{"id": ..., "name": ...}\<close> is the pair of its two values.\<close>

type_synonym user_dict = "int \<times> pystr"

definition add_user :: "pyval \<Rightarrow> string \<Rightarrow> world \<Rightarrow> (exn + int) \<times> world" where
  "add_user name database_path w =
     (if \<not> truthy name \<or> \<not> isinstance_str name
      then (Inl (ValueError ''Name must be a non-empty string''), w)
      else
        (case get_db_connection database_path
                (\<lambda>c w'. case execute_insert (strip (str_of name)) c w' of
                           (Inl e, c1, w1) \<Rightarrow> (Inl e, c1, w1)
                         | (Inr user_id, c1, w1) \<Rightarrow>
                             (Inr user_id, c1,
                              log INFO (User_created user_id (take 20 (str_of name))) w1)) w of
           (Inl e, w1) \<Rightarrow>
             (Inl e,
              if e = IntegrityError then log WARNING (Failed_to_create_user_integrity e) w1
              else if is_exception e then log ERROR (Failed_to_create_user e) w1
              else w1)
         | (Inr user_id, w1) \<Rightarrow> (Inr user_id, w1)))"

definition get_user :: "pyval \<Rightarrow> string \<Rightarrow> world \<Rightarrow> (exn + user_dict option) \<times> world" where
  "get_user user_id database_path w =
     (if \<not> isinstance_int user_id \<or> int_of user_id \<le> 0 then (Inr None, w)
      else
        (case get_db_connection database_path
                (\<lambda>c w'. case execute_select_by_id (int_of user_id) c w' of
                           (Inl e, c1, w1) \<Rightarrow> (Inl e, c1, w1)
                         | (Inr row, c1, w1) \<Rightarrow>
                             (case row of
                                Some r \<Rightarrow> (Inr (Some (fst r, snd r)), c1, w1)
                              | None \<Rightarrow> (Inr None, c1, w1))) w of
           (Inl e, w1) \<Rightarrow>
             (Inl e,
              if is_sqlite_error e
              then log ERROR (Failed_to_get_user (int_of user_id) e) w1 else w1)
         | (Inr r, w1) \<Rightarrow> (Inr r, w1)))"

section \<open>Application factory (__init__.py)\<close>

text \<open>
  The dictionary \<open>get_config()\<close> returns. Reading it from the environment is outside
  the model, so \<open>create_app\<close> takes it as an argument.
\<close>

record config =
  DATABASE_PATH :: string
  DEBUG :: bool
  MAX_NAME_LENGTH :: int
  INIT_DB_ON_START :: bool
  LOG_LEVEL :: string

text \<open>The Flask application, as far as \<open>create_app\<close> configures it.\<close>

record app =
  app_config :: config
  blueprints :: "string list"

definition register_blueprint :: "string \<Rightarrow> app \<Rightarrow> app" where
  "register_blueprint b a = a\<lparr>blueprints := blueprints a @ [b]\<rparr>"

definition create_app :: "config \<Rightarrow> world \<Rightarrow> (exn + app) \<times> world" where
  "create_app cfg w =
     (let a = \<lparr>app_config = cfg, blueprints = []\<rparr> in
      if INIT_DB_ON_START cfg then
        (case init_db (DATABASE_PATH cfg) w of
           (Inl e, w1) \<Rightarrow>
             if is_exception e then
               (let w2 = log ERROR (Startup_failed_to_initialize_database e) w1 in
                if \<not> DEBUG cfg then (Inl e, w2)
                else (Inr (register_blueprint ''api'' a), w2))
             else (Inl e, w1)
         | (Inr u, w1) \<Rightarrow> (Inr (register_blueprint ''api'' a), w1))
      else (Inr (register_blueprint ''api'' a), w))"

section \<open>Blocks run under a connection\<close>

text \<open>
  The protected blocks a caller can write with the statements of the repository: each
  step runs one of its SQL statements, raises an error of the caller's own, or returns
  early. A statement that raises ends the block with that error.
\<close>

datatype step =
    Insert pystr
  | Select int
  | Create
  | Probe
  | Raise exn
  | Return

text \<open>
  One step under the connection: it raises (\<open>Inl\<close>), or tells whether the block goes
  on (\<open>Inr True\<close>) or has returned (\<open>Inr False\<close>).
\<close>

fun run_step :: "step \<Rightarrow> conn \<Rightarrow> world \<Rightarrow> (exn + bool) \<times> conn \<times> world" where
  "run_step Return c w = (Inr False, c, w)"
| "run_step (Raise e) c w = (Inl e, c, w)"
| "run_step (Insert n) c w =
     (case execute_insert n c w of
        (Inl e, c1, w1) \<Rightarrow> (Inl e, c1, w1)
      | (Inr i, c1, w1) \<Rightarrow> (Inr True, c1, w1))"
| "run_step (Select i) c w =
     (case execute_select_by_id i c w of
        (Inl e, c1, w1) \<Rightarrow> (Inl e, c1, w1)
      | (Inr r, c1, w1) \<Rightarrow> (Inr True, c1, w1))"
| "run_step Create c w =
     (case execute_create_users c w of
        (Inl e, c1, w1) \<Rightarrow> (Inl e, c1, w1)
      | (Inr u, c1, w1) \<Rightarrow> (Inr True, c1, w1))"
| "run_step Probe c w =
     (case execute_select_1 c w of
        (Inl e, c1, w1) \<Rightarrow> (Inl e, c1, w1)
      | (Inr u, c1, w1) \<Rightarrow> (Inr True, c1, w1))"

fun run_block :: "step list \<Rightarrow> conn \<Rightarrow> world \<Rightarrow> (exn + unit) \<times> conn \<times> world" where
  "run_block [] c w = (Inr (), c, w)"
| "run_block (s # ss) c w =
     (case run_step s c w of
        (Inl e, c1, w1) \<Rightarrow> (Inl e, c1, w1)
      | (Inr go_on, c1, w1) \<Rightarrow> if go_on then run_block ss c1 w1 else (Inr (), c1, w1))"

text \<open>
  A connection is in step with its file when it is in a transaction or sees exactly
  what the file holds.
\<close>

definition synced :: "conn \<Rightarrow> world \<Rightarrow> bool" where
  "synced c w = (in_transaction c \<or> files w (conn_path c) = DbFile (view c))"

section \<open>Example data\<close>

text \<open>An injection attempt as a name: \<open>'; DROP TABLE users; --\<close>.\<close>

definition drop_table_name :: pystr where
  "drop_table_name =
     [39, 59, 32, 68, 82, 79, 80, 32, 84, 65, 66, 76, 69, 32, 117, 115, 101, 114, 115, 59,
      32, 45, 45]"

text \<open>The name \<open>Alice\<close>.\<close>

definition alice :: pystr where
  "alice = [65, 108, 105, 99, 101]"

text \<open>
  Worlds whose every path holds a database with an empty table, a database without the
  table, no database that can be opened.
\<close>

definition empty_store :: world where
  "empty_store = \<lparr>files = (\<lambda>p. DbFile (Some \<lparr>rows = [], seq = 0\<rparr>)), trace = []\<rparr>"

definition no_table_store :: world where
  "no_table_store = \<lparr>files = (\<lambda>p. DbFile None), trace = []\<rparr>"

definition unreachable_store :: world where
  "unreachable_store = \<lparr>files = (\<lambda>p. Unopenable), trace = []\<rparr>"

section \<open>Properties of validation\<close>

lemma strip_Nil [simp]: "strip [] = []"
  by (simp add: strip_def)

lemma rev_dropWhile_split:
  "xs = rev (dropWhile P (rev xs)) @ rev (takeWhile P (rev xs))"
proof -
  have "rev (takeWhile P (rev xs) @ dropWhile P (rev xs)) = xs"
    by (simp only: takeWhile_dropWhile_id rev_rev_ident)
  then have "rev (dropWhile P (rev xs)) @ rev (takeWhile P (rev xs)) = xs"
    by (simp only: rev_append)
  then show ?thesis by (rule sym)
qed

lemma dropWhile_strip:
  "dropWhile py_isspace s = strip s @ rev (takeWhile py_isspace (rev (dropWhile py_isspace s)))"
  unfolding strip_def by (rule rev_dropWhile_split)

lemma strip_decompose:
  "\<exists>pre suf. s = pre @ strip s @ suf \<and> (\<forall>c\<in>set pre. py_isspace c) \<and> (\<forall>c\<in>set suf. py_isspace c)"
proof -
  let ?a = "takeWhile py_isspace s"
  let ?b = "takeWhile py_isspace (rev (dropWhile py_isspace s))"
  have "s = ?a @ dropWhile py_isspace s" by simp
  also have "dropWhile py_isspace s = strip s @ rev ?b" by (rule dropWhile_strip)
  finally have "s = ?a @ strip s @ rev ?b" .
  moreover have "\<forall>c\<in>set ?a. py_isspace c" by (auto dest: set_takeWhileD)
  moreover have "\<forall>c\<in>set (rev ?b). py_isspace c" by (auto dest: set_takeWhileD)
  ultimately show ?thesis by blast
qed

lemma strip_hd: "strip s \<noteq> [] \<Longrightarrow> \<not> py_isspace (hd (strip s))"
proof -
  assume ne: "strip s \<noteq> []"
  let ?m = "dropWhile py_isspace s"
  have m: "?m = strip s @ rev (takeWhile py_isspace (rev ?m))" by (rule dropWhile_strip)
  with ne have "?m \<noteq> []" by (metis Nil_is_append_conv)
  then have "\<not> py_isspace (hd ?m)" by (rule hd_dropWhile)
  moreover from m ne have "hd ?m = hd (strip s)" by (metis hd_append2)
  ultimately show ?thesis by simp
qed

lemma strip_last: "strip s \<noteq> [] \<Longrightarrow> \<not> py_isspace (last (strip s))"
proof -
  assume ne: "strip s \<noteq> []"
  let ?r = "dropWhile py_isspace (rev (dropWhile py_isspace s))"
  from ne have r: "?r \<noteq> []" by (simp add: strip_def)
  then have "\<not> py_isspace (hd ?r)" by (rule hd_dropWhile)
  moreover have "last (strip s) = hd ?r" using r by (simp add: strip_def last_rev)
  ultimately show ?thesis by simp
qed

lemma dropWhile_unchanged: "xs \<noteq> [] \<Longrightarrow> \<not> P (hd xs) \<Longrightarrow> dropWhile P xs = xs"
  by (cases xs) auto

lemma strip_fixed:
  assumes "s \<noteq> []" "\<not> py_isspace (hd s)" "\<not> py_isspace (last s)"
  shows "strip s = s"
proof -
  from assms have d1: "dropWhile py_isspace s = s" by (simp add: dropWhile_unchanged)
  from assms have "rev s \<noteq> []" "\<not> py_isspace (hd (rev s))" by (simp_all add: hd_rev)
  then have "dropWhile py_isspace (rev s) = rev s" by (rule dropWhile_unchanged)
  with d1 show ?thesis by (simp add: strip_def)
qed

lemma strip_idem: "strip (strip s) = strip s"
proof (cases "strip s = []")
  case True
  then show ?thesis by simp
next
  case False
  then show ?thesis by (intro strip_fixed strip_hd strip_last)
qed

text \<open>
  C2 (as amended). The five rules of \<open>validate_name\<close>, first failure wins: "Name is
  required" when the value is false in Python's sense (\<open>None\<close>, \<open>False\<close>, a zero
  number, an empty string, list or object); otherwise "Name must be a string" when it is
  not a string; otherwise "Name cannot be empty" when nothing is left after stripping;
  otherwise the length message when the stripped name is longer than \<open>max_length\<close>;
  otherwise "Name contains invalid characters" when the stripped name has a character
  below 32 other than 9, 10 and 13; otherwise \<open>(True, None)\<close>.
\<close>

theorem validate_name_rules:
  "(\<not> truthy raw \<longrightarrow> validate_name raw m = (False, Some Name_is_required)) \<and>
   (truthy raw \<and> \<not> isinstance_str raw \<longrightarrow>
      validate_name raw m = (False, Some Name_must_be_a_string)) \<and>
   (s \<noteq> [] \<and> strip s = [] \<longrightarrow>
      validate_name (PStr s) m = (False, Some Name_cannot_be_empty)) \<and>
   (strip s \<noteq> [] \<and> m < int (length (strip s)) \<longrightarrow>
      validate_name (PStr s) m = (False, Some (Name_must_be_no_longer_than m))) \<and>
   (strip s \<noteq> [] \<and> int (length (strip s)) \<le> m \<and>
    (\<exists>c\<in>set (strip s). c < 32 \<and> c \<noteq> 9 \<and> c \<noteq> 10 \<and> c \<noteq> 13) \<longrightarrow>
      validate_name (PStr s) m = (False, Some Name_contains_invalid_characters)) \<and>
   (strip s \<noteq> [] \<and> int (length (strip s)) \<le> m \<and>
    (\<forall>c\<in>set (strip s). 32 \<le> c \<or> c = 9 \<or> c = 10 \<or> c = 13) \<longrightarrow>
      validate_name (PStr s) m = (True, None))"
proof -
  have ne: "strip s \<noteq> [] \<Longrightarrow> s \<noteq> []" by auto
  have c1: "\<not> truthy raw \<longrightarrow> validate_name raw m = (False, Some Name_is_required)"
    by (simp add: validate_name_def)
  have c2: "truthy raw \<and> \<not> isinstance_str raw \<longrightarrow>
      validate_name raw m = (False, Some Name_must_be_a_string)"
    by (simp add: validate_name_def)
  have c3: "s \<noteq> [] \<and> strip s = [] \<longrightarrow>
      validate_name (PStr s) m = (False, Some Name_cannot_be_empty)"
    by (simp add: validate_name_def)
  have c4: "strip s \<noteq> [] \<and> m < int (length (strip s)) \<longrightarrow>
      validate_name (PStr s) m = (False, Some (Name_must_be_no_longer_than m))"
    using ne by (simp add: validate_name_def Let_def)
  have c5: "strip s \<noteq> [] \<and> int (length (strip s)) \<le> m \<and>
    (\<exists>c\<in>set (strip s). c < 32 \<and> c \<noteq> 9 \<and> c \<noteq> 10 \<and> c \<noteq> 13) \<longrightarrow>
      validate_name (PStr s) m = (False, Some Name_contains_invalid_characters)"
    using ne by (auto simp: validate_name_def Let_def list_ex_iff)
  have c6: "strip s \<noteq> [] \<and> int (length (strip s)) \<le> m \<and>
    (\<forall>c\<in>set (strip s). 32 \<le> c \<or> c = 9 \<or> c = 10 \<or> c = 13) \<longrightarrow>
      validate_name (PStr s) m = (True, None)"
  proof
    assume a: "strip s \<noteq> [] \<and> int (length (strip s)) \<le> m \<and>
      (\<forall>c\<in>set (strip s). 32 \<le> c \<or> c = 9 \<or> c = 10 \<or> c = 13)"
    then have "\<not> list_ex (\<lambda>c. c < 32 \<and> c \<notin> set [9, 10, 13]) (strip s)"
      by (fastforce simp: list_ex_iff)
    with a ne show "validate_name (PStr s) m = (True, None)"
      by (simp add: validate_name_def Let_def)
  qed
  from c1 c2 c3 c4 c5 c6 show ?thesis by blast
qed

theorem validate_name_rules_witness:
  "validate_name PNone 255 = (False, Some Name_is_required) \<and>
   validate_name (PList [PInt 1]) 255 = (False, Some Name_must_be_a_string) \<and>
   validate_name (PStr [32, 9]) 255 = (False, Some Name_cannot_be_empty) \<and>
   validate_name (PStr [65, 66, 67]) 2 = (False, Some (Name_must_be_no_longer_than 2)) \<and>
   validate_name (PStr [65, 7, 66]) 255 = (False, Some Name_contains_invalid_characters) \<and>
   validate_name (PStr [32, 65, 108, 105, 99, 101, 32]) 255 = (True, None)"
proof -
  have s1: "strip [32, 9] = []" by (simp add: strip_def py_isspace_def)
  have s2: "strip [65, 66, 67] = [65, 66, 67]" by (simp add: strip_def py_isspace_def)
  have s3: "strip [65, 7, 66] = [65, 7, 66]" by (simp add: strip_def py_isspace_def)
  have s4: "strip [32, 65, 108, 105, 99, 101, 32] = [65, 108, 105, 99, 101]"
    by (simp add: strip_def py_isspace_def)
  show ?thesis
    using validate_name_rules [of PNone 255 "[32, 9]"]
      validate_name_rules [of "PList [PInt 1]" 255 "[32, 9]"]
      validate_name_rules [of PNone 2 "[65, 66, 67]"]
      validate_name_rules [of PNone 255 "[65, 7, 66]"]
      validate_name_rules [of PNone 255 "[32, 65, 108, 105, 99, 101, 32]"]
    by (simp add: s1 s2 s3 s4)
qed

text \<open>
  C2 as stated fails at the integer 0: it is neither absent, null nor empty, and it is
  not a string, so the stated order gives the wrong-type failure; the code answers
  "Name is required", because its first test is Python's \<open>not name\<close>.
\<close>

theorem validate_name_zero_counterexample:
  "PInt 0 \<noteq> PNone \<and> PInt 0 \<noteq> PStr [] \<and> PInt 0 \<noteq> PList [] \<and> PInt 0 \<noteq> PDict [] \<and>
   \<not> isinstance_str (PInt 0) \<and>
   validate_name (PInt 0) 255 \<noteq> (False, Some Name_must_be_a_string) \<and>
   validate_name (PInt 0) 255 = (False, Some Name_is_required)"
  by (simp add: validate_name_def)

section \<open>Properties of the active-user list\<close>

lemma set_user_active_frame:
  "active_users_ref (set_user_active i st) = active_users_ref st \<and>
   length (heap (set_user_active i st)) = length (heap st)"
  by (simp add: set_user_active_def Let_def list_append_def list_pop0_def)

lemma set_user_active_valid: "valid_state st \<Longrightarrow> valid_state (set_user_active i st)"
  by (simp add: valid_state_def set_user_active_frame)

lemma active_ids_set_user_active:
  assumes "valid_state st"
  shows "active_ids (set_user_active i st) =
     (let ys = (if i \<in> set (active_ids st) then active_ids st else active_ids st @ [i])
      in if 5 < length ys then tl ys else ys)"
  using assms
  by (simp add: set_user_active_def Let_def list_append_def list_pop0_def active_ids_def
      deref_def valid_state_def)

lemma set_user_active_other:
  assumes "a \<noteq> active_users_ref st"
  shows "deref (set_user_active i st) a = deref st a"
  using assms
  by (simp add: set_user_active_def Let_def list_append_def list_pop0_def active_ids_def
      deref_def)

lemma mark_all_snoc: "mark_all (ids @ [i]) st = set_user_active i (mark_all ids st)"
  by (simp add: mark_all_def)

lemma mark_all_frame:
  "active_users_ref (mark_all ids st) = active_users_ref st \<and>
   length (heap (mark_all ids st)) = length (heap st)"
  by (induction ids rule: rev_induct) (simp_all add: mark_all_snoc set_user_active_frame, simp add: mark_all_def)

lemma mark_all_valid: "valid_state st \<Longrightarrow> valid_state (mark_all ids st)"
  by (simp add: valid_state_def mark_all_frame)

lemma mark_all_other:
  "a \<noteq> active_users_ref st \<Longrightarrow> deref (mark_all ids st) a = deref st a"
  by (induction ids rule: rev_induct)
    (simp_all add: mark_all_snoc set_user_active_other mark_all_frame, simp add: mark_all_def)

lemma initial_valid: "valid_state initial_services"
  by (simp add: valid_state_def initial_services_def)

lemma initial_active_ids: "active_ids initial_services = []"
  by (simp add: active_ids_def deref_def initial_services_def)

text \<open>One call on a list that satisfies the invariant.\<close>

lemma step_invariant:
  fixes i :: int
  assumes "length xs \<le> 5" "distinct xs" "subseq xs ids"
  defines "ys \<equiv> (if i \<in> set xs then xs else xs @ [i])"
  defines "zs \<equiv> (if 5 < length ys then tl ys else ys)"
  shows "length zs \<le> 5 \<and> distinct zs \<and> subseq zs (ids @ [i])"
proof (cases "i \<in> set xs")
  case True
  with assms(1) have "zs = xs" by (simp add: zs_def ys_def)
  with assms(1-3) show ?thesis by (simp add: list_emb_prefix)
next
  case False
  then have ys: "ys = xs @ [i]" by (simp add: ys_def)
  have emb: "subseq (xs @ [i]) (ids @ [i])"
    using assms(3) by (simp add: list_emb_append_mono)
  show ?thesis
  proof (cases "length xs = 5")
    case True
    then have ne: "xs \<noteq> []" by auto
    with True ys have zs: "zs = tl xs @ [i]" by (simp add: zs_def)
    have "subseq (tl xs @ [i]) (xs @ [i])"
      using ne by (cases xs) (simp_all add: subseq_Cons')
    then have "subseq (tl xs @ [i]) (ids @ [i])" using emb by (rule subseq_order.trans)
    moreover have "distinct (tl xs @ [i])"
      using assms(2) False ne by (cases xs) auto
    moreover have "length (tl xs @ [i]) \<le> 5" using True by simp
    ultimately show ?thesis by (simp add: zs)
  next
    case neq: False
    with assms(1) have "length xs < 5" by simp
    with ys have "zs = xs @ [i]" by (simp add: zs_def)
    with emb assms(1-3) False \<open>length xs < 5\<close> show ?thesis by simp
  qed
qed

lemma mark_all_invariant:
  "length (active_ids (mark_all ids initial_services)) \<le> 5 \<and>
   distinct (active_ids (mark_all ids initial_services)) \<and>
   subseq (active_ids (mark_all ids initial_services)) ids"
proof (induction ids rule: rev_induct)
  case Nil
  show ?case by (simp add: mark_all_def initial_active_ids)
next
  case (snoc i ids)
  have v: "valid_state (mark_all ids initial_services)"
    by (rule mark_all_valid [OF initial_valid])
  from snoc show ?case
    unfolding mark_all_snoc active_ids_set_user_active [OF v] Let_def
    by (intro step_invariant) simp_all
qed

lemma mark_all_distinct_ids:
  "distinct ids \<Longrightarrow>
   active_ids (mark_all ids initial_services) = drop (length ids - 5) ids"
proof (induction ids rule: rev_induct)
  case Nil
  show ?case by (simp add: mark_all_def initial_active_ids)
next
  case (snoc i ids)
  let ?xs = "active_ids (mark_all ids initial_services)"
  have v: "valid_state (mark_all ids initial_services)"
    by (rule mark_all_valid [OF initial_valid])
  from snoc have xs: "?xs = drop (length ids - 5) ids" and i: "i \<notin> set ids" by simp_all
  from xs i have nin: "i \<notin> set ?xs" by (metis in_set_dropD)
  show ?case
  proof (cases "5 \<le> length ids")
    case True
    then have len: "length ?xs = 5" by (simp add: xs)
    have "active_ids (mark_all (ids @ [i]) initial_services) = tl (?xs @ [i])"
      using nin len by (simp add: mark_all_snoc active_ids_set_user_active [OF v])
    also have "\<dots> = tl ?xs @ [i]" using len by (cases ?xs) simp_all
    also have "tl ?xs = drop (Suc (length ids - 5)) ids" by (simp add: xs drop_Suc tl_drop)
    finally have r: "active_ids (mark_all (ids @ [i]) initial_services) =
        drop (Suc (length ids - 5)) ids @ [i]" .
    from True have "Suc (length ids - 5) = length ids - 4" by simp
    with r True show ?thesis by simp
  next
    case False
    then have "?xs = ids" by (simp add: xs)
    moreover have "active_ids (mark_all (ids @ [i]) initial_services) = ?xs @ [i]"
      using nin False \<open>?xs = ids\<close>
      by (simp add: mark_all_snoc active_ids_set_user_active [OF v])
    ultimately show ?thesis using False by simp
  qed
qed

text \<open>
  C5. Starting from the empty list, after every run of \<open>set_user_active\<close> calls the
  list holds at most 5 ids, holds none twice and keeps them in the order of the calls
  that inserted them; a further call with an id already in the list changes nothing at
  all, a call with a new id appends it, and when that makes six entries the one at
  index 0 is removed.
\<close>

theorem active_set_invariant:
  assumes "st = mark_all ids initial_services" and "xs = active_ids st"
  shows "length xs \<le> 5 \<and> distinct xs \<and> subseq xs ids \<and>
    (user_id \<in> set xs \<longrightarrow> set_user_active user_id st = st) \<and>
    (user_id \<notin> set xs \<and> length xs < 5 \<longrightarrow>
       active_ids (set_user_active user_id st) = xs @ [user_id]) \<and>
    (user_id \<notin> set xs \<and> length xs = 5 \<longrightarrow>
       active_ids (set_user_active user_id st) = tl xs @ [user_id] \<and>
       hd xs \<notin> set (active_ids (set_user_active user_id st)))"
proof -
  have inv: "length xs \<le> 5" "distinct xs" "subseq xs ids"
    using mark_all_invariant [of ids] assms by simp_all
  have v: "valid_state st"
    unfolding assms(1) by (rule mark_all_valid [OF initial_valid])
  have present: "user_id \<in> set xs \<longrightarrow> set_user_active user_id st = st"
    using inv(1) assms(2) by (simp add: set_user_active_def Let_def)
  have room: "user_id \<notin> set xs \<and> length xs < 5 \<longrightarrow>
       active_ids (set_user_active user_id st) = xs @ [user_id]"
    using assms(2) by (simp add: active_ids_set_user_active [OF v])
  have full: "user_id \<notin> set xs \<and> length xs = 5 \<longrightarrow>
       active_ids (set_user_active user_id st) = tl xs @ [user_id] \<and>
       hd xs \<notin> set (active_ids (set_user_active user_id st))"
  proof
    assume a: "user_id \<notin> set xs \<and> length xs = 5"
    then obtain y ys where xs: "xs = y # ys" by (cases xs) auto
    from a have "active_ids (set_user_active user_id st) = tl (xs @ [user_id])"
      using assms(2) by (simp add: active_ids_set_user_active [OF v])
    then have e: "active_ids (set_user_active user_id st) = tl xs @ [user_id]"
      by (simp add: xs)
    moreover from inv(2) a xs have "hd xs \<notin> set (tl xs @ [user_id])" by auto
    ultimately show "active_ids (set_user_active user_id st) = tl xs @ [user_id] \<and>
       hd xs \<notin> set (active_ids (set_user_active user_id st))" by simp
  qed
  from inv present room full show ?thesis by blast
qed

lemma run_example_7:
  "mark_all [1, 2, 3, 4, 5, 6, 3] initial_services =
     \<lparr>heap = [[2, 3, 4, 5, 6]], active_users_ref = 0\<rparr>"
  by (simp add: mark_all_def initial_services_def set_user_active_def Let_def active_ids_def
      deref_def list_append_def list_pop0_def)

lemma run_example_2:
  "mark_all [1, 2] initial_services = \<lparr>heap = [[1, 2]], active_users_ref = 0\<rparr>"
  by (simp add: mark_all_def initial_services_def set_user_active_def Let_def active_ids_def
      deref_def list_append_def list_pop0_def)

theorem active_set_invariant_witness:
  "active_ids (mark_all [1, 2, 3, 4, 5, 6, 3] initial_services) = [2, 3, 4, 5, 6] \<and>
   subseq [2, 3, 4, 5, 6] [1, 2, 3, 4, 5, 6, 3 :: int] \<and>
   set_user_active 3 (mark_all [1, 2, 3, 4, 5, 6, 3] initial_services) =
     mark_all [1, 2, 3, 4, 5, 6, 3] initial_services \<and>
   active_ids (set_user_active 7 (mark_all [1, 2, 3, 4, 5, 6, 3] initial_services)) =
     [3, 4, 5, 6, 7] \<and>
   active_ids (set_user_active 9 (mark_all [1, 2] initial_services)) = [1, 2, 9]"
proof -
  have a: "active_ids (mark_all [1, 2, 3, 4, 5, 6, 3] initial_services) = [2, 3, 4, 5, 6]"
    by (simp add: run_example_7 active_ids_def deref_def)
  have b: "active_ids (mark_all [1, 2] initial_services) = [1, 2]"
    by (simp add: run_example_2 active_ids_def deref_def)
  show ?thesis
    using active_set_invariant [OF refl refl, of "[1, 2, 3, 4, 5, 6, 3]" 3]
      active_set_invariant [OF refl refl, of "[1, 2, 3, 4, 5, 6, 3]" 7]
      active_set_invariant [OF refl refl, of "[1, 2]" 9]
    by (simp add: a b)
qed

text \<open>
  C6. After a run of more than 5 calls with pairwise distinct ids, the list holds
  exactly the last 5 ids of the run, in the order of the calls.
\<close>

theorem fifo_eviction:
  assumes "distinct ids" and "5 < length ids"
  shows "active_ids (mark_all ids initial_services) = drop (length ids - 5) ids \<and>
    length (active_ids (mark_all ids initial_services)) = 5"
  using assms by (simp add: mark_all_distinct_ids)

theorem fifo_eviction_witness:
  "distinct [10, 20, 30, 40, 50, 60, 70 :: int] \<and>
   5 < length [10, 20, 30, 40, 50, 60, 70 :: int] \<and>
   active_ids (mark_all [10, 20, 30, 40, 50, 60, 70] initial_services) =
     [30, 40, 50, 60, 70]"
proof -
  have d: "distinct [10, 20, 30, 40, 50, 60, 70 :: int]" by simp
  have l: "5 < length [10, 20, 30, 40, 50, 60, 70 :: int]" by simp
  from fifo_eviction [OF d l] d l show ?thesis by simp
qed

text \<open>
  C9. \<open>get_active_users\<close> returns a new list object whose elements are those of
  \<open>_active_users\<close> at the call, in order. Later \<open>set_user_active\<close> calls do not
  change the returned object, and changing the returned object in place does not
  change \<open>_active_users\<close>.
\<close>

theorem snapshot_is_defensive_copy:
  assumes "valid_state st" and "get_active_users st = (r, st1)"
  shows "deref st1 r = active_ids st \<and> active_ids st1 = active_ids st \<and>
    r \<noteq> active_users_ref st1 \<and>
    deref (mark_all ids st1) r = active_ids st \<and>
    active_ids (list_assign r ys st1) = active_ids st1"
proof -
  let ?a = "active_users_ref st"
  from assms(2) have r: "r = length (heap st)"
    and st1: "st1 = st\<lparr>heap := heap st @ [deref st ?a]\<rparr>"
    by (simp_all add: get_active_users_def list_copy_def)
  from assms(1) have a: "?a < length (heap st)" by (simp add: valid_state_def)
  have c1: "deref st1 r = active_ids st"
    by (simp add: st1 r deref_def active_ids_def)
  have c2: "active_ids st1 = active_ids st"
    using a by (simp add: st1 deref_def active_ids_def nth_append)
  have c3: "r \<noteq> active_users_ref st1" using a by (simp add: st1 r)
  then have "deref (mark_all ids st1) r = deref st1 r" by (rule mark_all_other)
  with c1 have c4: "deref (mark_all ids st1) r = active_ids st" by simp
  have c5: "active_ids (list_assign r ys st1) = active_ids st1"
    using c3 by (simp add: list_assign_def active_ids_def deref_def)
  from c1 c2 c3 c4 c5 show ?thesis by blast
qed

theorem snapshot_is_defensive_copy_witness:
  "valid_state \<lparr>heap = [[1, 2, 3]], active_users_ref = 0\<rparr> \<and>
   get_active_users \<lparr>heap = [[1, 2, 3]], active_users_ref = 0\<rparr> =
     (1, \<lparr>heap = [[1, 2, 3], [1, 2, 3]], active_users_ref = 0\<rparr>) \<and>
   deref (mark_all [4, 5, 6] \<lparr>heap = [[1, 2, 3], [1, 2, 3]], active_users_ref = 0\<rparr>) 1 =
     [1, 2, 3] \<and>
   active_ids (list_assign 1 [] \<lparr>heap = [[1, 2, 3], [1, 2, 3]], active_users_ref = 0\<rparr>) =
     [1, 2, 3]"
proof -
  have v: "valid_state \<lparr>heap = [[1, 2, 3]], active_users_ref = 0\<rparr>"
    by (simp add: valid_state_def)
  have g: "get_active_users \<lparr>heap = [[1, 2, 3]], active_users_ref = 0\<rparr> =
     (1, \<lparr>heap = [[1, 2, 3], [1, 2, 3]], active_users_ref = 0\<rparr>)"
    by (simp add: get_active_users_def list_copy_def deref_def)
  have a: "active_ids \<lparr>heap = [[1, 2, 3]], active_users_ref = 0\<rparr> = [1, 2, 3]"
    "active_ids \<lparr>heap = [[1, 2, 3], [1, 2, 3]], active_users_ref = 0\<rparr> = [1, 2, 3]"
    by (simp_all add: active_ids_def deref_def)
  from snapshot_is_defensive_copy [OF v g, of "[4, 5, 6]" "[]"] v g a
  show ?thesis by simp
qed

section \<open>Properties of the user operations\<close>

lemmas store_defs =
  get_db_connection_def sqlite3_connect_def conn_commit_def conn_rollback_def
  conn_close_def on_error_def emit_def log_def stored_def

lemma largest_id_bound: "r \<in> set rs \<Longrightarrow> fst r \<le> largest_id rs"
  by (induction rs) auto

lemma new_rowid_fresh:
  assumes "new_rowid t = Some i"
  shows "0 < i" and "i \<le> max_rowid" and "\<forall>r\<in>set (rows t). fst r < i"
proof -
  let ?m = "max (int (seq t)) (largest_id (rows t))"
  from assms have m: "?m < max_rowid" and i: "i = ?m + 1"
    by (auto simp: new_rowid_def Let_def split: if_splits)
  from i show "0 < i" by linarith
  from m i show "i \<le> max_rowid" by linarith
  show "\<forall>r\<in>set (rows t). fst r < i"
  proof
    fix r assume "r \<in> set (rows t)"
    then have "fst r \<le> largest_id (rows t)" by (rule largest_id_bound)
    with i show "fst r < i" by linarith
  qed
qed

lemma find_appended:
  "\<forall>r\<in>set rs. fst r \<noteq> i \<Longrightarrow> find (\<lambda>r. fst r = i) (rs @ [(i, n)]) = Some (i, n)"
  by (induction rs) auto

lemma find_absent:
  "\<forall>r\<in>set rs. fst r \<noteq> i \<Longrightarrow> find (\<lambda>r. fst r = i) rs = None"
  by (induction rs) auto

text \<open>What a successful \<open>add_user\<close> has done.\<close>

lemma add_user_success:
  assumes "add_user (PStr n) p w = (Inr i, w1)"
  shows "\<exists>t. files w p = DbFile (Some t) \<and> new_rowid t = Some i \<and>
    files w1 = (files w)(p := DbFile (Some \<lparr>rows = rows t @ [(i, strip n)], seq = nat i\<rparr>))"
  using assms
  by (auto simp: add_user_def store_defs execute_insert_def Let_def
      split: if_splits dbfile.splits option.splits)

text \<open>\<open>get_user\<close> on a store that has the table, for an id SQLite can hold.\<close>

lemma get_user_in_range:
  assumes "files w p = DbFile (Some t)" and "0 < i" and "i \<le> max_rowid"
  shows "get_user (PInt i) p w =
    (Inr (find (\<lambda>r. fst r = i) (rows t)),
     w\<lparr>trace := trace w @ [Connect p, Execute (Select_user_by_id i), Commit, Close]\<rparr>)"
  using assms
  by (auto simp: get_user_def store_defs execute_select_by_id_def Let_def min_rowid_def
      split: option.splits)

text \<open>
  C1. For a validated name \<open>n\<close> (it passes \<open>validate_name\<close> and is already stripped, so
  it is a non-empty trimmed string), whatever other characters it holds: when
  \<open>add_user\<close> returns the id \<open>i\<close>, \<open>get_user i\<close> then returns the record with that id
  and exactly that name, and the \<open>users\<close> table is still there, holding the row.
\<close>

theorem create_then_read:
  assumes "validate_name (PStr n) max_length = (True, None)" and "strip n = n"
    and "add_user (PStr n) p w = (Inr i, w1)"
  shows "n \<noteq> [] \<and>
    (\<exists>w2 t. get_user (PInt i) p w1 = (Inr (Some (i, n)), w2) \<and>
       files w2 p = DbFile (Some t) \<and> (i, n) \<in> set (rows t))"
proof -
  from assms(1) have ne: "n \<noteq> []"
    by (auto simp: validate_name_def split: if_splits)
  from add_user_success [OF assms(3)] assms(2) obtain t where
    new: "new_rowid t = Some i" and
    f1: "files w1 p = DbFile (Some \<lparr>rows = rows t @ [(i, n)], seq = nat i\<rparr>)"
    by auto
  let ?t = "\<lparr>rows = rows t @ [(i, n)], seq = nat i\<rparr>"
  from new_rowid_fresh [OF new] have pos: "0 < i" and le: "i \<le> max_rowid"
    and fresh: "\<forall>r\<in>set (rows t). fst r \<noteq> i" by auto
  have "find (\<lambda>r. fst r = i) (rows ?t) = Some (i, n)"
    using fresh by (simp add: find_appended)
  with get_user_in_range [OF f1 pos le] f1 ne show ?thesis by simp
qed

lemma drop_table_name_ascii: "drop_table_name = pystr_of (CHR 0x27 # ''; DROP TABLE users; --'')"
  by (simp add: drop_table_name_def pystr_of_def)

lemma strip_drop_table_name: "strip drop_table_name = drop_table_name"
  by (simp add: strip_def drop_table_name_def py_isspace_def)

lemma add_drop_table_name:
  "fst (add_user (PStr drop_table_name) ''secure_app.db'' empty_store) = Inr 1"
  by (simp add: add_user_def store_defs execute_insert_def Let_def strip_drop_table_name
      empty_store_def new_rowid_def max_rowid_def)
    (simp add: drop_table_name_def encodable_def)

lemma validate_drop_table_name: "validate_name (PStr drop_table_name) 255 = (True, None)"
  by (simp add: validate_name_def strip_drop_table_name Let_def)
    (simp add: drop_table_name_def)

theorem create_then_read_witness:
  "validate_name (PStr drop_table_name) 255 = (True, None) \<and>
   strip drop_table_name = drop_table_name \<and>
   fst (add_user (PStr drop_table_name) ''secure_app.db'' empty_store) = Inr 1 \<and>
   (\<exists>w2 t. get_user (PInt 1) ''secure_app.db''
       (snd (add_user (PStr drop_table_name) ''secure_app.db'' empty_store)) =
         (Inr (Some (1, drop_table_name)), w2) \<and>
       files w2 ''secure_app.db'' = DbFile (Some t) \<and> (1, drop_table_name) \<in> set (rows t))"
proof -
  have a: "add_user (PStr drop_table_name) ''secure_app.db'' empty_store =
    (Inr 1, snd (add_user (PStr drop_table_name) ''secure_app.db'' empty_store))"
    using add_drop_table_name by (simp add: prod_eq_iff)
  from create_then_read [OF validate_drop_table_name strip_drop_table_name a]
    validate_drop_table_name strip_drop_table_name add_drop_table_name
  show ?thesis by simp
qed

text \<open>
  C10. For a name that is the empty string, \<open>None\<close> or not a string, \<open>add_user\<close>
  raises \<open>ValueError("Name must be a non-empty string")\<close> and does nothing else: no
  connection is opened, nothing is logged, the store is untouched.
\<close>

theorem add_user_rejects_bad_name:
  assumes "name = PStr [] \<or> name = PNone \<or> \<not> isinstance_str name"
  shows "add_user name p w = (Inl (ValueError ''Name must be a non-empty string''), w)"
proof -
  from assms have "\<not> truthy name \<or> \<not> isinstance_str name" by auto
  then show ?thesis by (simp add: add_user_def)
qed

theorem add_user_rejects_bad_name_witness:
  "add_user (PStr []) ''secure_app.db'' empty_store =
     (Inl (ValueError ''Name must be a non-empty string''), empty_store) \<and>
   add_user PNone ''secure_app.db'' empty_store =
     (Inl (ValueError ''Name must be a non-empty string''), empty_store) \<and>
   add_user (PInt 7) ''secure_app.db'' empty_store =
     (Inl (ValueError ''Name must be a non-empty string''), empty_store)"
  using add_user_rejects_bad_name [of "PStr []" "''secure_app.db''" empty_store]
    add_user_rejects_bad_name [of PNone "''secure_app.db''" empty_store]
    add_user_rejects_bad_name [of "PInt 7" "''secure_app.db''" empty_store]
  by simp

text \<open>
  The parts of C4 that hold: an id that is not an \<open>int\<close> or is not positive gives
  \<open>None\<close> with no store access at all, and a positive id that SQLite can hold and that
  no row has gives \<open>None\<close> from a store that has the table.
\<close>

lemma get_user_short_circuit:
  "\<not> isinstance_int user_id \<or> int_of user_id \<le> 0 \<Longrightarrow> get_user user_id p w = (Inr None, w)"
  by (simp add: get_user_def)

lemma get_user_absent:
  assumes "files w p = DbFile (Some t)" and "0 < i" and "i \<le> max_rowid"
    and "\<forall>r\<in>set (rows t). fst r \<noteq> i"
  shows "fst (get_user (PInt i) p w) = Inr None"
  using get_user_in_range [OF assms(1-3)] assms(4) by (simp add: find_absent)

text \<open>
  C4 fails above the 64-bit range. On a store that has the table, a positive id larger
  than the largest SQLite integer cannot be bound to the query: \<open>get_user\<close> raises
  \<open>OverflowError\<close>, which is not an \<open>sqlite3.Error\<close>, although no row has that id.
\<close>

theorem get_user_too_large:
  assumes "files w p = DbFile (Some t)" and "max_rowid < i"
  shows "\<exists>w'. get_user (PInt i) p w = (Inl OverflowError, w') \<and> files w' = files w"
proof -
  from assms(2) have "0 < i" by (simp add: max_rowid_def)
  with assms show ?thesis
    by (simp add: get_user_def store_defs execute_select_by_id_def Let_def)
qed

theorem get_user_too_large_witness:
  "files empty_store ''secure_app.db'' = DbFile (Some \<lparr>rows = [], seq = 0\<rparr>) \<and>
   max_rowid < 9223372036854775808 \<and>
   fst (get_user (PInt 9223372036854775808) ''secure_app.db'' empty_store) =
     Inl OverflowError"
proof -
  have f: "files empty_store ''secure_app.db'' = DbFile (Some \<lparr>rows = [], seq = 0\<rparr>)"
    by (simp add: empty_store_def)
  have m: "max_rowid < 9223372036854775808" by (simp add: max_rowid_def)
  from get_user_too_large [OF f m] obtain w' where
    "get_user (PInt 9223372036854775808) ''secure_app.db'' empty_store =
       (Inl OverflowError, w')" by blast
  with f m show ?thesis by simp
qed

section \<open>Properties of schema initialisation and startup\<close>

lemma init_db_openable:
  assumes "files w p = DbFile d"
  shows "init_db p w =
    (Inr (),
     w\<lparr>files := (files w)(p := DbFile (Some (case d of None \<Rightarrow> \<lparr>rows = [], seq = 0\<rparr> | Some t \<Rightarrow> t))),
       trace := trace w @ [Connect p, Execute Create_users_table,
                           Log INFO (Database_initialized p), Commit, Close]\<rparr>)"
proof (cases d)
  case None
  with assms show ?thesis
    by (simp add: init_db_def store_defs execute_create_users_def Let_def)
next
  case (Some t)
  with assms have "(files w)(p := DbFile (Some t)) = files w" by (simp add: fun_upd_idem)
  with assms Some show ?thesis
    by (simp add: init_db_def store_defs execute_create_users_def Let_def)
qed

lemma init_db_unopenable:
  assumes "files w p = Unopenable"
  shows "init_db p w =
    (Inl OperationalError,
     w\<lparr>trace := trace w @ [Connect p, Log ERROR (Database_error OperationalError),
                           Log ERROR (Failed_to_initialize_database OperationalError)]\<rparr>)"
  using assms by (simp add: init_db_def store_defs)

text \<open>
  C7. On a store that can be opened, two calls of \<open>init_db\<close> in a row both succeed, and
  the store after the second is the store after the first: the table is created when it
  is missing and left as it is, rows and counter included, when it is there.
\<close>

theorem init_db_idempotent:
  assumes "files w p = DbFile d"
  shows "\<exists>w1 w2. init_db p w = (Inr (), w1) \<and> init_db p w1 = (Inr (), w2) \<and>
    files w2 = files w1 \<and>
    files w1 = (files w)(p := DbFile (Some (case d of None \<Rightarrow> \<lparr>rows = [], seq = 0\<rparr>
                                                     | Some t \<Rightarrow> t)))"
proof -
  let ?t = "case d of None \<Rightarrow> \<lparr>rows = [], seq = 0\<rparr> | Some t \<Rightarrow> t"
  let ?w1 = "snd (init_db p w)"
  have 1: "init_db p w = (Inr (), ?w1)" by (simp add: init_db_openable [OF assms])
  have f1: "files ?w1 = (files w)(p := DbFile (Some ?t))"
    by (simp add: init_db_openable [OF assms])
  then have o: "files ?w1 p = DbFile (Some ?t)" by simp
  have 2: "init_db p ?w1 = (Inr (), snd (init_db p ?w1))"
    by (simp add: init_db_openable [OF o])
  have "files (snd (init_db p ?w1)) = (files ?w1)(p := DbFile (Some ?t))"
    by (simp add: init_db_openable [OF o])
  with o have f2: "files (snd (init_db p ?w1)) = files ?w1" by (simp add: fun_upd_idem)
  from 1 2 f1 f2 show ?thesis by blast
qed

theorem init_db_idempotent_witness:
  "files no_table_store ''secure_app.db'' = DbFile None \<and>
   fst (init_db ''secure_app.db'' no_table_store) = Inr () \<and>
   fst (init_db ''secure_app.db'' (snd (init_db ''secure_app.db'' no_table_store))) = Inr () \<and>
   files (snd (init_db ''secure_app.db'' (snd (init_db ''secure_app.db'' no_table_store)))) =
     files (snd (init_db ''secure_app.db'' no_table_store)) \<and>
   files (snd (init_db ''secure_app.db'' no_table_store)) ''secure_app.db'' =
     DbFile (Some \<lparr>rows = [], seq = 0\<rparr>)"
proof -
  have f: "files no_table_store ''secure_app.db'' = DbFile None"
    by (simp add: no_table_store_def)
  from init_db_idempotent [OF f] obtain w1 w2 where
    "init_db ''secure_app.db'' no_table_store = (Inr (), w1)"
    "init_db ''secure_app.db'' w1 = (Inr (), w2)" "files w2 = files w1"
    "files w1 = (files no_table_store)(''secure_app.db'' := DbFile (Some \<lparr>rows = [], seq = 0\<rparr>))"
    by auto
  with f show ?thesis by simp
qed

text \<open>
  C8. When startup runs \<open>init_db\<close> and it fails with a store error: if \<open>DEBUG\<close> is not
  set the error leaves \<open>create_app\<close>; if \<open>DEBUG\<close> is set the error is logged and
  \<open>create_app\<close> returns the configured application.
\<close>

theorem startup_init_failure:
  assumes "INIT_DB_ON_START cfg" and "init_db (DATABASE_PATH cfg) w = (Inl e, w1)"
    and "is_sqlite_error e"
  shows "(\<not> DEBUG cfg \<longrightarrow> (\<exists>w2. create_app cfg w = (Inl e, w2))) \<and>
    (DEBUG cfg \<longrightarrow>
       (\<exists>a w2. create_app cfg w = (Inr a, w2) \<and> app_config a = cfg \<and>
          blueprints a = [''api''] \<and>
          Log ERROR (Startup_failed_to_initialize_database e) \<in> set (trace w2)))"
proof -
  from assms(3) have "is_exception e" by (cases e) simp_all
  with assms(1,2) show ?thesis
    by (simp add: create_app_def Let_def register_blueprint_def log_def emit_def)
qed

theorem startup_init_failure_witness:
  "fst (init_db ''secure_app.db'' unreachable_store) = Inl OperationalError \<and>
   fst (create_app \<lparr>DATABASE_PATH = ''secure_app.db'', DEBUG = False, MAX_NAME_LENGTH = 255,
          INIT_DB_ON_START = True, LOG_LEVEL = ''INFO''\<rparr> unreachable_store) =
     Inl OperationalError \<and>
   (\<exists>a. fst (create_app \<lparr>DATABASE_PATH = ''secure_app.db'', DEBUG = True,
          MAX_NAME_LENGTH = 255, INIT_DB_ON_START = True, LOG_LEVEL = ''INFO''\<rparr>
          unreachable_store) = Inr a \<and> blueprints a = [''api''])"
proof -
  let ?off = "\<lparr>DATABASE_PATH = ''secure_app.db'', DEBUG = False, MAX_NAME_LENGTH = 255,
          INIT_DB_ON_START = True, LOG_LEVEL = ''INFO''\<rparr>"
  let ?on = "\<lparr>DATABASE_PATH = ''secure_app.db'', DEBUG = True, MAX_NAME_LENGTH = 255,
          INIT_DB_ON_START = True, LOG_LEVEL = ''INFO''\<rparr>"
  let ?w1 = "snd (init_db ''secure_app.db'' unreachable_store)"
  have u: "files unreachable_store ''secure_app.db'' = Unopenable"
    by (simp add: unreachable_store_def)
  have i: "fst (init_db ''secure_app.db'' unreachable_store) = Inl OperationalError"
    by (simp add: init_db_unopenable [OF u])
  have s: "is_sqlite_error OperationalError" by simp
  have g_off: "INIT_DB_ON_START ?off" and g_on: "INIT_DB_ON_START ?on" by simp_all
  have i_off: "init_db (DATABASE_PATH ?off) unreachable_store = (Inl OperationalError, ?w1)"
    using i by (simp add: prod_eq_iff)
  have i_on: "init_db (DATABASE_PATH ?on) unreachable_store = (Inl OperationalError, ?w1)"
    using i by (simp add: prod_eq_iff)
  from startup_init_failure [OF g_off i_off s]
  have off: "fst (create_app ?off unreachable_store) = Inl OperationalError" by auto
  from startup_init_failure [OF g_on i_on s]
  have on: "\<exists>a. fst (create_app ?on unreachable_store) = Inr a \<and> blueprints a = [''api'']"
    by auto
  from i off on show ?thesis by blast
qed

section \<open>Properties of the connection manager\<close>

lemmas execute_defs =
  execute_insert_def execute_select_by_id_def execute_create_users_def execute_select_1_def

lemma sqlite_error_is_exception: "is_sqlite_error e \<Longrightarrow> is_exception e"
  by (cases e) simp_all

text \<open>One step: the path stays, the connection stays in step with its file.\<close>

lemma run_step_synced:
  assumes "synced c w" and "run_step s c w = (r, c1, w1)"
  shows "synced c1 w1 \<and> conn_path c1 = conn_path c"
  using assms
  by (cases s)
    (auto simp: synced_def execute_defs Let_def emit_def split: option.splits if_splits)

text \<open>One step with the table in view never touches the file.\<close>

lemma run_step_table_present:
  assumes "view c \<noteq> None" and "run_step s c w = (r, c1, w1)"
  shows "files w1 = files w \<and> view c1 \<noteq> None"
  using assms
  by (cases s) (auto simp: execute_defs Let_def emit_def split: option.splits if_splits)

text \<open>
  One step without the table in view: the file changes only when the step creates the
  table outside a transaction; a step that goes on without the table leaves the
  connection as it was but for the trace.
\<close>

lemma run_step_no_table:
  assumes "view c = None" and "run_step s c w = (r, c1, w1)"
  shows "(files w1 = files w \<and> (r = Inr True \<longrightarrow> view c1 \<noteq> None \<or> conn_path c1 = conn_path c)) \<or>
    (s = Create \<and> view c1 \<noteq> None \<and>
     files w1 = (files w)(conn_path c := DbFile (Some \<lparr>rows = [], seq = 0\<rparr>)))"
  using assms
  by (cases s) (auto simp: execute_defs Let_def emit_def split: option.splits if_splits)

lemma run_step_path:
  assumes "run_step s c w = (r, c1, w1)"
  shows "conn_path c1 = conn_path c"
  using assms
  by (cases s) (auto simp: execute_defs Let_def emit_def split: option.splits if_splits)

lemma run_block_synced:
  "synced c w \<Longrightarrow> run_block ss c w = (r, c2, w2) \<Longrightarrow>
   synced c2 w2 \<and> conn_path c2 = conn_path c"
proof (induction ss arbitrary: c w)
  case Nil
  then show ?case by simp
next
  case (Cons s ss)
  obtain q c1 w1 where st: "run_step s c w = (q, c1, w1)" by (cases "run_step s c w") auto
  from run_step_synced [OF Cons.prems(1) st]
  have s1: "synced c1 w1" and p1: "conn_path c1 = conn_path c" by simp_all
  show ?case
  proof (cases q)
    case (Inl e)
    with st Cons.prems(2) s1 p1 show ?thesis by auto
  next
    case (Inr go_on)
    show ?thesis
    proof (cases go_on)
      case True
      with Inr st Cons.prems(2) have "run_block ss c1 w1 = (r, c2, w2)" by simp
      from Cons.IH [OF s1 this] p1 show ?thesis by simp
    next
      case False
      with Inr st Cons.prems(2) s1 p1 show ?thesis by auto
    qed
  qed
qed

text \<open>A block that starts with the table in view never touches the file.\<close>

lemma run_block_table_present:
  "view c \<noteq> None \<Longrightarrow> run_block ss c w = (r, c2, w2) \<Longrightarrow> files w2 = files w"
proof (induction ss arbitrary: c w)
  case Nil
  then show ?case by simp
next
  case (Cons s ss)
  obtain q c1 w1 where st: "run_step s c w = (q, c1, w1)" by (cases "run_step s c w") auto
  from run_step_table_present [OF Cons.prems(1) st]
  have f1: "files w1 = files w" and v1: "view c1 \<noteq> None" by simp_all
  show ?case
  proof (cases q)
    case (Inl e)
    with st Cons.prems(2) f1 show ?thesis by auto
  next
    case (Inr go_on)
    show ?thesis
    proof (cases go_on)
      case True
      with Inr st Cons.prems(2) have "run_block ss c1 w1 = (r, c2, w2)" by simp
      from Cons.IH [OF v1 this] f1 show ?thesis by simp
    next
      case False
      with Inr st Cons.prems(2) f1 show ?thesis by auto
    qed
  qed
qed

text \<open>
  A block changes the file only by creating the missing table outside a transaction;
  the table is then in the file, empty.
\<close>

lemma run_block_files:
  "run_block ss c w = (r, c2, w2) \<Longrightarrow>
   files w2 = files w \<or>
   (view c = None \<and> Create \<in> set ss \<and>
    files w2 = (files w)(conn_path c := DbFile (Some \<lparr>rows = [], seq = 0\<rparr>)))"
proof (induction ss arbitrary: c w)
  case Nil
  then show ?case by simp
next
  case (Cons s ss)
  obtain q c1 w1 where st: "run_step s c w = (q, c1, w1)" by (cases "run_step s c w") auto
  have p1: "conn_path c1 = conn_path c" by (rule run_step_path [OF st])
  show ?case
  proof (cases "view c")
    case (Some t)
    then have "view c \<noteq> None" by simp
    from run_block_table_present [OF this Cons.prems] show ?thesis by simp
  next
    case None
    note one = run_step_no_table [OF None st]
    show ?thesis
    proof (cases q)
      case (Inl e)
      with st Cons.prems have "w2 = w1" by simp
      with one None show ?thesis by auto
    next
      case (Inr go_on)
      show ?thesis
      proof (cases go_on)
        case False
        with Inr st Cons.prems have "w2 = w1" by simp
        with one None show ?thesis by auto
      next
        case True
        with Inr st Cons.prems have rest: "run_block ss c1 w1 = (r, c2, w2)" by simp
        show ?thesis
        proof (cases "view c1")
          case (Some t)
          then have "view c1 \<noteq> None" by simp
          from run_block_table_present [OF this rest] have "files w2 = files w1" .
          with one None show ?thesis by auto
        next
          case v1: None
          with one have f1: "files w1 = files w" by auto
          from Cons.IH [OF rest] f1 p1 None show ?thesis by auto
        qed
      qed
    qed
  qed
qed

text \<open>When the file cannot be opened there is no connection: the error of
  \<open>connect\<close> is logged and raised, and the block does not run.\<close>

lemma get_db_connection_unopenable:
  "files w p = Unopenable \<Longrightarrow>
   get_db_connection p body w =
     (Inl OperationalError,
      w\<lparr>trace := trace w @ [Connect p, Log ERROR (Database_error OperationalError)]\<rparr>)"
  by (simp add: store_defs)

text \<open>
  C3 (as amended). For every block run under \<open>get_db_connection\<close> on a store that can be
  opened, the result of the block is the result of the whole (an error is re-raised as
  it is) and the connection is closed last on every exit path. When the block ends
  without error, what the connection then sees is committed before the close. When it
  raises, nothing of its transaction reaches the store: the store is as before the
  block, or, when the block created the missing table outside a transaction, as before
  but for that empty table.
\<close>

theorem connection_scope:
  assumes "files w p = DbFile d"
    and "run_block ss \<lparr>conn_path = p, view = d, in_transaction = False\<rparr> (emit (Connect p) w) =
           (r, c1, w2)"
  shows "\<exists>w'. get_db_connection p (run_block ss) w = (r, w') \<and> last (trace w') = Close \<and>
    (case r of
       Inr u \<Rightarrow>
         files w' = (files w)(p := DbFile (view c1)) \<and> trace w' = trace w2 @ [Commit, Close]
     | Inl e \<Rightarrow>
         (files w' = files w \<or>
          (d = None \<and> Create \<in> set ss \<and>
           files w' = (files w)(p := DbFile (Some \<lparr>rows = [], seq = 0\<rparr>)))) \<and>
         trace w' = trace w2 @
           (if is_exception e
            then [Rollback,
                  Log ERROR (if is_sqlite_error e then Database_error e
                             else Unexpected_database_error e),
                  Close]
            else [Close]))"
proof -
  let ?c0 = "\<lparr>conn_path = p, view = d, in_transaction = False\<rparr>"
  let ?w0 = "emit (Connect p) w"
  have f0: "files ?w0 = files w" by (simp add: emit_def)
  have sync0: "synced ?c0 ?w0"
    using assms(1) by (simp add: synced_def emit_def)
  from run_block_synced [OF sync0 assms(2)]
  have path: "conn_path c1 = p"
    and sync: "in_transaction c1 \<or> files w2 p = DbFile (view c1)"
    by (auto simp: synced_def)
  from run_block_files [OF assms(2)] f0
  have files: "files w2 = files w \<or>
    (d = None \<and> Create \<in> set ss \<and>
     files w2 = (files w)(p := DbFile (Some \<lparr>rows = [], seq = 0\<rparr>)))" by simp
  have conn: "sqlite3_connect p w = (Inr ?c0, ?w0)"
    using assms(1) by (simp add: sqlite3_connect_def)
  show ?thesis
  proof (cases r)
    case (Inr u)
    have upd: "(files w2)(p := DbFile (view c1)) = (files w)(p := DbFile (view c1))"
      using files by auto
    have "\<not> in_transaction c1 \<Longrightarrow> files w2 = (files w)(p := DbFile (view c1))"
    proof -
      assume "\<not> in_transaction c1"
      with sync have "files w2 p = DbFile (view c1)" by simp
      then have "(files w2)(p := DbFile (view c1)) = files w2" by (simp add: fun_upd_idem)
      with upd show ?thesis by simp
    qed
    with Inr assms(2) conn path upd show ?thesis
      by (simp add: get_db_connection_def conn_commit_def conn_close_def emit_def Let_def)
  next
    case (Inl e)
    with assms(2) conn path files show ?thesis
      by (auto simp: get_db_connection_def on_error_def conn_rollback_def conn_close_def
          emit_def log_def Let_def sqlite_error_is_exception)
  qed
qed

lemma alice_insert_then_raise:
  "run_block [Insert alice, Raise RuntimeError]
     \<lparr>conn_path = ''secure_app.db'',
        view = Some \<lparr>rows = [], seq = 0\<rparr>, in_transaction = False\<rparr>
     (emit (Connect ''secure_app.db'') empty_store) =
   (Inl RuntimeError,
    \<lparr>conn_path = ''secure_app.db'',
       view = Some \<lparr>rows = [(1, alice)], seq = 1\<rparr>, in_transaction = True\<rparr>,
    emit (Execute (Insert_user alice)) (emit (Connect ''secure_app.db'') empty_store))"
  by (simp add: execute_insert_def Let_def new_rowid_def max_rowid_def encodable_def
      alice_def)

lemma alice_insert:
  "run_block [Insert alice]
     \<lparr>conn_path = ''secure_app.db'',
        view = Some \<lparr>rows = [], seq = 0\<rparr>, in_transaction = False\<rparr>
     (emit (Connect ''secure_app.db'') empty_store) =
   (Inr (),
    \<lparr>conn_path = ''secure_app.db'',
       view = Some \<lparr>rows = [(1, alice)], seq = 1\<rparr>, in_transaction = True\<rparr>,
    emit (Execute (Insert_user alice)) (emit (Connect ''secure_app.db'') empty_store))"
  by (simp add: execute_insert_def Let_def new_rowid_def max_rowid_def encodable_def
      alice_def)

theorem connection_scope_witness:
  "files empty_store ''secure_app.db'' = DbFile (Some \<lparr>rows = [], seq = 0\<rparr>) \<and>
   (\<exists>w'. get_db_connection ''secure_app.db'' (run_block [Insert alice, Raise RuntimeError])
            empty_store = (Inl RuntimeError, w') \<and>
         files w' = files empty_store \<and> last (trace w') = Close) \<and>
   (\<exists>w'. get_db_connection ''secure_app.db'' (run_block [Insert alice]) empty_store =
            (Inr (), w') \<and>
         files w' ''secure_app.db'' = DbFile (Some \<lparr>rows = [(1, alice)], seq = 1\<rparr>) \<and>
         last (trace w') = Close)"
proof -
  have f: "files empty_store ''secure_app.db'' = DbFile (Some \<lparr>rows = [], seq = 0\<rparr>)"
    by (simp add: empty_store_def)
  from connection_scope [OF f alice_insert_then_raise]
  have a: "\<exists>w'. get_db_connection ''secure_app.db''
      (run_block [Insert alice, Raise RuntimeError]) empty_store = (Inl RuntimeError, w') \<and>
      files w' = files empty_store \<and> last (trace w') = Close"
    by auto
  from connection_scope [OF f alice_insert]
  have b: "\<exists>w'. get_db_connection ''secure_app.db'' (run_block [Insert alice]) empty_store =
      (Inr (), w') \<and>
      files w' ''secure_app.db'' = DbFile (Some \<lparr>rows = [(1, alice)], seq = 1\<rparr>) \<and>
      last (trace w') = Close"
    by auto
  from f a b show ?thesis by blast
qed

text \<open>
  C3 as stated fails for a block that creates the missing table and then raises: the
  table was committed when it was created, the rollback finds no transaction, and the
  store is not as it was before the block.
\<close>

theorem rollback_keeps_created_table_counterexample:
  "fst (get_db_connection ''secure_app.db'' (run_block [Create, Raise RuntimeError])
          no_table_store) = Inl RuntimeError \<and>
   files no_table_store ''secure_app.db'' = DbFile None \<and>
   files (snd (get_db_connection ''secure_app.db'' (run_block [Create, Raise RuntimeError])
                 no_table_store)) ''secure_app.db'' =
     DbFile (Some \<lparr>rows = [], seq = 0\<rparr>)"
  by (simp add: store_defs execute_create_users_def Let_def no_table_store_def)

end
